theory Spec2Isabelle
  imports Complex_Main
begin

section \<open>SciFin: random series and simulated markets\<close>

text \<open>
  A shallow embedding of \<^verbatim>\<open>timeseries/randomseries.py\<close> and
  \<^verbatim>\<open>marketdata/simuldata.py\<close>.

  Conventions of the embedding.
  \<^item> Python numbers are reals: the arithmetic of the source is read exactly, so rounding,
    overflow, infinities and NaN are outside the model. Division keeps Python's
    \<^verbatim>\<open>ZeroDivisionError\<close>.
  \<^item> Every exception of the source is a value of \<open>error\<close>; a function that may raise
    returns \<open>error + 'a\<close>, with \<open>Inl\<close> for the exception.
  \<^item> List reads and writes are checked as Python checks them (\<^verbatim>\<open>IndexError\<close>),
    with indices in \<open>int\<close> and negative indices counting from the end.
  \<^item> The random source is an input: \<open>draws i\<close> is the \<open>i\<close>-th number that
    \<^verbatim>\<open>np.random.normal\<close> delivers, and the model builds arrays of the requested
    size from it. What numpy does with a location or a scale that it cannot use is outside
    the model; that it refuses a negative dimension is inside.
  \<^item> The length \<open>T\<close> of the date index built by \<^verbatim>\<open>pd.date_range\<close> is an input.
\<close>

subsection \<open>Exceptions and sequencing\<close>

datatype error =
    AssertionError
  | IndexError
  | ZeroDivisionError
  | ValueError
  | TypeError
  | UnboundLocalError
  | Exception string

fun bindE :: "error + 'a \<Rightarrow> ('a \<Rightarrow> error + 'b) \<Rightarrow> error + 'b" where
  "bindE (Inl e) f = Inl e"
| "bindE (Inr v) f = f v"

text \<open>A \<^verbatim>\<open>for\<close> loop over a list of indices, threading the state, left at the first exception.\<close>

fun for_loop :: "'i list \<Rightarrow> ('i \<Rightarrow> 's \<Rightarrow> error + 's) \<Rightarrow> 's \<Rightarrow> error + 's" where
  "for_loop [] body s = Inr s"
| "for_loop (i # is) body s = bindE (body i s) (for_loop is body)"

subsection \<open>Python lists and numbers\<close>

definition py_index :: "nat \<Rightarrow> int \<Rightarrow> nat option" where
  "py_index n i =
     (if 0 \<le> i \<and> i < int n then Some (nat i)
      else if i < 0 \<and> 0 \<le> int n + i then Some (nat (int n + i))
      else None)"

definition getitem :: "'a list \<Rightarrow> int \<Rightarrow> error + 'a" where
  "getitem xs i = (case py_index (length xs) i of None \<Rightarrow> Inl IndexError | Some k \<Rightarrow> Inr (xs ! k))"

definition setitem :: "'a list \<Rightarrow> int \<Rightarrow> 'a \<Rightarrow> error + 'a list" where
  "setitem xs i v = (case py_index (length xs) i of None \<Rightarrow> Inl IndexError | Some k \<Rightarrow> Inr (xs[k := v]))"

definition py_div :: "real \<Rightarrow> real \<Rightarrow> error + real" where
  "py_div a b = (if b = 0 then Inl ZeroDivisionError else Inr (a / b))"

text \<open>\<^verbatim>\<open>sum(xs)\<close> starts from 0 and adds from the left.\<close>

definition py_sum :: "real list \<Rightarrow> real" where
  "py_sum xs = foldl (+) 0 xs"

text \<open>\<^verbatim>\<open>int(x)\<close> of a float truncates towards zero.\<close>

definition py_int :: "real \<Rightarrow> int" where
  "py_int x = (if 0 \<le> x then \<lfloor>x\<rfloor> else \<lceil>x\<rceil>)"

subsection \<open>The random source\<close>

text \<open>\<^verbatim>\<open>np.random.normal(loc, scale, size=n)\<close>\<close>

definition np_random_normal :: "nat \<Rightarrow> (nat \<Rightarrow> real) \<Rightarrow> real list" where
  "np_random_normal n draws = map draws [0..<n]"

text \<open>\<^verbatim>\<open>np.random.normal(loc, scale, size=(rows, cols))\<close>\<close>

definition np_random_normal_2d :: "int \<Rightarrow> int \<Rightarrow> (nat \<Rightarrow> nat \<Rightarrow> real) \<Rightarrow> error + real list list" where
  "np_random_normal_2d rows cols draws =
     (if rows < 0 \<or> cols < 0 then Inl ValueError
      else Inr (map (\<lambda>i. map (draws i) [0..<nat cols]) [0..<nat rows]))"

subsection \<open>Time series models\<close>

text \<open>
  What a generator hands back: the numbers it prints and the values of the series, which
  the source wraps with the date index into a \<^verbatim>\<open>timeseries\<close> object.
\<close>

record generated =
  printed :: "real list"
  series :: "real list"

text \<open>\<^verbatim>\<open>x[t_ini] = start_values[t_ini]\<close>\<close>

definition seed_value :: "real list \<Rightarrow> nat \<Rightarrow> real list \<Rightarrow> error + real list" where
  "seed_value start_values t_ini x =
     bindE (getitem start_values (int t_ini)) (\<lambda>v. setitem x (int t_ini) v)"

text \<open>\<^verbatim>\<open>x[t] += coeffs[p] * x[t-p-1]\<close>\<close>

definition AR_term :: "real list \<Rightarrow> nat \<Rightarrow> nat \<Rightarrow> real list \<Rightarrow> error + real list" where
  "AR_term coeffs t p x =
     bindE (getitem x (int t)) (\<lambda>xt.
     bindE (getitem coeffs (int p)) (\<lambda>c.
     bindE (getitem x (int t - int p - 1)) (\<lambda>v.
     setitem x (int t) (xt + c * v))))"

text \<open>The body of the loop over \<^verbatim>\<open>t in range(P,T,1)\<close> of \<^verbatim>\<open>AutoRegressive\<close>.\<close>

definition AR_step :: "real \<Rightarrow> real list \<Rightarrow> real list \<Rightarrow> nat \<Rightarrow> nat \<Rightarrow> real list \<Rightarrow> error + real list" where
  "AR_step cst coeffs a P t x =
     bindE (getitem a (int t)) (\<lambda>a_t.
     bindE (setitem x (int t) (cst + a_t))
       (for_loop [0..<P] (AR_term coeffs t)))"

definition AutoRegressive ::
  "nat \<Rightarrow> real list \<Rightarrow> real \<Rightarrow> int \<Rightarrow> real list \<Rightarrow> real \<Rightarrow> (nat \<Rightarrow> real) \<Rightarrow> error + generated" where
  "AutoRegressive T start_values cst order coeffs sigma draws =
     (if int (length coeffs) \<noteq> order then Inl AssertionError
      else if int (length start_values) \<noteq> order then Inl AssertionError
      else let P = length start_values; a = np_random_normal T draws in
        bindE (for_loop [0..<P] (seed_value start_values) (replicate T 0)) (\<lambda>x.
        bindE (for_loop [P..<T] (AR_step cst coeffs a P) x) (\<lambda>x.
        bindE (py_div cst (1 - py_sum coeffs)) (\<lambda>E.
        Inr \<lparr>printed = [E], series = x\<rparr>))))"

text \<open>\<^verbatim>\<open>x[t] = x[t-1] + a[t]\<close>\<close>

definition RW_step :: "real list \<Rightarrow> nat \<Rightarrow> real list \<Rightarrow> error + real list" where
  "RW_step a t x =
     bindE (getitem x (int t - 1)) (\<lambda>v.
     bindE (getitem a (int t)) (\<lambda>a_t.
     setitem x (int t) (v + a_t)))"

definition RandomWalk :: "nat \<Rightarrow> real \<Rightarrow> real \<Rightarrow> (nat \<Rightarrow> real) \<Rightarrow> error + generated" where
  "RandomWalk T start_value sigma draws =
     (let a = np_random_normal T draws in
        bindE (setitem (replicate T 0) 0 start_value) (\<lambda>x.
        bindE (for_loop [1..<T] (RW_step a) x) (\<lambda>x.
        Inr \<lparr>printed = [], series = x\<rparr>)))"

text \<open>\<^verbatim>\<open>if t-q-1 >= 0: x[t] -= coeffs[q] * a[t-q-1]\<close>\<close>

definition MA_term :: "real list \<Rightarrow> real list \<Rightarrow> nat \<Rightarrow> nat \<Rightarrow> real list \<Rightarrow> error + real list" where
  "MA_term coeffs a t q x =
     (if int t - int q - 1 \<ge> 0 then
        bindE (getitem x (int t)) (\<lambda>xt.
        bindE (getitem coeffs (int q)) (\<lambda>c.
        bindE (getitem a (int t - int q - 1)) (\<lambda>v.
        setitem x (int t) (xt - c * v))))
      else Inr x)"

definition MA_step :: "real \<Rightarrow> real list \<Rightarrow> real list \<Rightarrow> nat \<Rightarrow> nat \<Rightarrow> real list \<Rightarrow> error + real list" where
  "MA_step cst coeffs a Q t x =
     bindE (getitem a (int t)) (\<lambda>a_t.
     bindE (setitem x (int t) (cst + a_t))
       (for_loop [0..<Q] (MA_term coeffs a t)))"

text \<open>\<^verbatim>\<open>V += coeffs[q]**2\<close>\<close>

definition MA_variance_term :: "real list \<Rightarrow> nat \<Rightarrow> real \<Rightarrow> error + real" where
  "MA_variance_term coeffs q V = bindE (getitem coeffs (int q)) (\<lambda>c. Inr (V + c ^ 2))"

definition MovingAverage ::
  "nat \<Rightarrow> real \<Rightarrow> int \<Rightarrow> real list \<Rightarrow> real \<Rightarrow> (nat \<Rightarrow> real) \<Rightarrow> error + generated" where
  "MovingAverage T cst order coeffs sigma draws =
     (if int (length coeffs) \<noteq> order then Inl AssertionError
      else let Q = nat order; a = np_random_normal T draws in
        bindE (for_loop [0..<T] (MA_step cst coeffs a Q) (replicate T 0)) (\<lambda>x.
        bindE (for_loop [0..<Q] (MA_variance_term coeffs) 1) (\<lambda>V.
        let V = V * sigma ^ 2 in
        Inr \<lparr>printed = [cst, V, sqrt V], series = x\<rparr>)))"

text \<open>\<^verbatim>\<open>x[t] += ARcoeffs[p] * x[t-p]\<close>\<close>

definition ARMA_AR_term :: "real list \<Rightarrow> nat \<Rightarrow> nat \<Rightarrow> real list \<Rightarrow> error + real list" where
  "ARMA_AR_term ARcoeffs t p x =
     bindE (getitem x (int t)) (\<lambda>xt.
     bindE (getitem ARcoeffs (int p)) (\<lambda>c.
     bindE (getitem x (int t - int p)) (\<lambda>v.
     setitem x (int t) (xt + c * v))))"

text \<open>\<^verbatim>\<open>if t-q-1 >= 0: x[t] -= MAcoeffs[q] * x[t-q-1]\<close>\<close>

definition ARMA_MA_term :: "real list \<Rightarrow> nat \<Rightarrow> nat \<Rightarrow> real list \<Rightarrow> error + real list" where
  "ARMA_MA_term MAcoeffs t q x =
     (if int t - int q - 1 \<ge> 0 then
        bindE (getitem x (int t)) (\<lambda>xt.
        bindE (getitem MAcoeffs (int q)) (\<lambda>c.
        bindE (getitem x (int t - int q - 1)) (\<lambda>v.
        setitem x (int t) (xt - c * v))))
      else Inr x)"

definition ARMA_step ::
  "real \<Rightarrow> real list \<Rightarrow> real list \<Rightarrow> real list \<Rightarrow> nat \<Rightarrow> nat \<Rightarrow> nat \<Rightarrow> real list \<Rightarrow> error + real list" where
  "ARMA_step cst ARcoeffs MAcoeffs a P Q t x =
     bindE (getitem a (int t)) (\<lambda>a_t.
     bindE (setitem x (int t) (cst + a_t)) (\<lambda>x.
     bindE (for_loop [0..<P] (ARMA_AR_term ARcoeffs t) x)
       (for_loop [0..<Q] (ARMA_MA_term MAcoeffs t))))"

definition ARMA ::
  "nat \<Rightarrow> real list \<Rightarrow> real \<Rightarrow> int \<Rightarrow> real list \<Rightarrow> int \<Rightarrow> real list \<Rightarrow> real \<Rightarrow> (nat \<Rightarrow> real)
     \<Rightarrow> error + generated" where
  "ARMA T start_values cst ARorder ARcoeffs MAorder MAcoeffs sigma draws =
     (if int (length ARcoeffs) \<noteq> ARorder then Inl AssertionError
      else if int (length MAcoeffs) \<noteq> MAorder then Inl AssertionError
      else if int (length start_values) \<noteq> ARorder then Inl AssertionError
      else let P = nat ARorder; Q = nat MAorder; a = np_random_normal T draws in
        bindE (for_loop [0..<P] (seed_value start_values) (replicate T 0)) (\<lambda>x.
        bindE (for_loop [P..<T] (ARMA_step cst ARcoeffs MAcoeffs a P Q) x) (\<lambda>x.
        Inr \<lparr>printed = [], series = x\<rparr>)))"

text \<open>
  The recursion of the ARMA series read as an equation between the values of the finished
  series \<open>x\<close>, every term taken from \<open>x\<close> itself.
\<close>

definition ARMA_literal_recursion ::
  "real \<Rightarrow> real list \<Rightarrow> real list \<Rightarrow> (nat \<Rightarrow> real) \<Rightarrow> real list \<Rightarrow> nat \<Rightarrow> bool" where
  "ARMA_literal_recursion cst ARcoeffs MAcoeffs noise x t =
     (x ! t = cst + noise t
        + (\<Sum>p \<in> {0..<length ARcoeffs}. ARcoeffs ! p * x ! (t - p))
        - (\<Sum>q \<in> {q \<in> {0..<length MAcoeffs}. q + 1 \<le> t}. MAcoeffs ! q * x ! (t - q - 1)))"

subsection \<open>Simulated markets\<close>

text \<open>
  A pandas frame: its cells by rows, its column labels and its row labels. A fresh frame
  is labelled by position; \<^verbatim>\<open>set_market_names\<close> names the columns and turns the row
  labels into periods (\<open>Period f d\<close> is the period of frequency \<open>f\<close> that holds day \<open>d\<close>).
\<close>

datatype label = Position nat | Name string | Period string int

record dataframe =
  cells :: "real list list"
  columns :: "label list"
  index :: "label list"

text \<open>\<^verbatim>\<open>pd.DataFrame(array)\<close> of an array with the given number of columns.\<close>

definition DataFrame :: "real list list \<Rightarrow> nat \<Rightarrow> dataframe" where
  "DataFrame m ncols =
     \<lparr>cells = m, columns = map Position [0..<ncols], index = map Position [0..<length m]\<rparr>"

text \<open>\<^verbatim>\<open>cumprod()\<close> runs down the rows, column by column.\<close>

fun cumprod_from :: "real list \<Rightarrow> real list list \<Rightarrow> real list list" where
  "cumprod_from acc [] = []"
| "cumprod_from acc (r # rs) = map2 (*) acc r # cumprod_from (map2 (*) acc r) rs"

fun cumprod :: "real list list \<Rightarrow> real list list" where
  "cumprod [] = []"
| "cumprod (r # rs) = r # cumprod_from r rs"

text \<open>\<^verbatim>\<open>m[i] = v\<close> on a two-dimensional array fills row \<open>i\<close> with \<open>v\<close>.\<close>

definition fill_row :: "real list list \<Rightarrow> int \<Rightarrow> real \<Rightarrow> error + real list list" where
  "fill_row m i v = bindE (getitem m i) (\<lambda>row. setitem m i (map (\<lambda>_. v) row))"

definition create_market ::
  "real \<Rightarrow> real \<Rightarrow> real \<Rightarrow> real \<Rightarrow> real \<Rightarrow> int \<Rightarrow> (nat \<Rightarrow> nat \<Rightarrow> real) \<Rightarrow> error + dataframe" where
  "create_market r_ini drift sigma n_years steps_per_year n_scenarios draws =
     bindE (py_div 1 steps_per_year) (\<lambda>dt.
     let n_steps = py_int (n_years * steps_per_year) + 1 in
     if 1 + drift = 0 \<and> dt < 0 then Inl ZeroDivisionError
     else
       bindE (np_random_normal_2d n_steps n_scenarios draws) (\<lambda>rets_plus_1.
       bindE (fill_row rets_plus_1 0 1) (\<lambda>rets_plus_1.
       Inr (DataFrame (map (map ((*) r_ini)) (cumprod rets_plus_1)) (nat n_scenarios)))))"

text \<open>\<^verbatim>\<open>str(n)\<close> of a natural number.\<close>

fun str :: "nat \<Rightarrow> string" where
  "str n = (if n < 10 then [''0123456789'' ! n]
            else str (n div 10) @ [''0123456789'' ! (n mod 10)])"

declare str.simps [simp del]

text \<open>
  The local variable \<^verbatim>\<open>date\<close> of \<^verbatim>\<open>set_market_names\<close> holds the string it was
  given until \<^verbatim>\<open>strptime\<close> has parsed it into a day.
\<close>

datatype pydate = DateStr string | Datetime int

definition np_arange :: "nat \<Rightarrow> int list" where
  "np_arange n = map int [0..<n]"

text \<open>\<^verbatim>\<open>date + pd.to_timedelta(ks, unit='D')\<close>\<close>

definition plus_days :: "pydate \<Rightarrow> int list \<Rightarrow> error + int list" where
  "plus_days date ks = (case date of DateStr s \<Rightarrow> Inl TypeError | Datetime d \<Rightarrow> Inr (map (\<lambda>k. d + k) ks))"

text \<open>\<^verbatim>\<open>date - timedelta(days=n)\<close>\<close>

definition minus_days :: "pydate \<Rightarrow> int \<Rightarrow> error + pydate" where
  "minus_days date n = (case date of DateStr s \<Rightarrow> Inl TypeError | Datetime d \<Rightarrow> Inr (Datetime (d - n)))"

text \<open>
  The branches that bind \<^verbatim>\<open>date_series\<close>; \<open>None\<close> is the variable left unbound.
  The \<^verbatim>\<open>ValueError\<close> of the last \<^verbatim>\<open>else\<close> is built and dropped, not raised.
\<close>

definition date_series_of :: "pydate \<Rightarrow> string \<Rightarrow> string \<Rightarrow> nat \<Rightarrow> error + int list option" where
  "date_series_of date date_type interval_type Nticks =
     (if date_type = ''start'' then
        if interval_type = ''D'' then
          bindE (plus_days date (np_arange Nticks)) (\<lambda>s. Inr (Some s))
        else if interval_type = ''M'' then
          bindE (plus_days date (map (\<lambda>k. k * 12) (np_arange Nticks))) (\<lambda>s. Inr (Some s))
        else if interval_type = ''Y'' then
          bindE (plus_days date (map (\<lambda>k. k * 365) (np_arange Nticks))) (\<lambda>s. Inr (Some s))
        else Inr None
      else if date_type = ''end'' then
        if interval_type = ''D'' then
          bindE (minus_days date (int Nticks)) (\<lambda>d.
          bindE (plus_days d (np_arange Nticks)) (\<lambda>s. Inr (Some s)))
        else if interval_type = ''M'' then
          bindE (minus_days date (py_int (real Nticks * (365 / 12)))) (\<lambda>d.
          bindE (plus_days d (map (\<lambda>k. k * py_int (365 / 12)) (np_arange Nticks))) (\<lambda>s. Inr (Some s)))
        else if interval_type = ''Y'' then
          bindE (minus_days date (int (Nticks * 365))) (\<lambda>d.
          bindE (plus_days d (map (\<lambda>k. k * 365) (np_arange Nticks))) (\<lambda>s. Inr (Some s)))
        else Inr None
      else Inr None)"

text \<open>
  \<^verbatim>\<open>set_market_names\<close> changes the frame it is given in place: the result is the frame
  as the call leaves it, with the exception that ended the call if there is one.
  \<open>strptime s\<close> is the day \<^verbatim>\<open>datetime.strptime(s, "%Y-%m-%d")\<close> parses, \<open>None\<close> when it
  raises; the \<^verbatim>\<open>except\<close> clause then builds a \<^verbatim>\<open>ValueError\<close> without raising it.
\<close>

definition set_market_names ::
  "(string \<Rightarrow> int option) \<Rightarrow> dataframe \<Rightarrow> string \<Rightarrow> string \<Rightarrow> string \<Rightarrow> dataframe \<times> error option" where
  "set_market_names strptime data date date_type interval_type =
     (let Nticks = length (index data);
          Nassets = length (columns data);
          data = data\<lparr>columns := map (\<lambda>x. Name (''Asset '' @ str x)) [0..<Nassets]\<rparr>;
          date = (case strptime date of Some d \<Rightarrow> Datetime d | None \<Rightarrow> DateStr date)
      in case date_series_of date date_type interval_type Nticks of
           Inl e \<Rightarrow> (data, Some e)
         | Inr None \<Rightarrow> (data, Some UnboundLocalError)
         | Inr (Some date_series) \<Rightarrow>
             (data\<lparr>index := map (Period interval_type) date_series\<rparr>, None))"

text \<open>\<^verbatim>\<open>Series.min()\<close>; an empty series has none (pandas answers NaN, which is below nothing).\<close>

fun series_min :: "int list \<Rightarrow> int option" where
  "series_min [] = None"
| "series_min (v # vs) = Some (fold min vs v)"

definition create_market_shares :: "dataframe \<Rightarrow> (nat \<Rightarrow> real) \<Rightarrow> error + (label \<times> int) list" where
  "create_market_shares market draws =
     (let Nassets = length (columns market);
          market_shares = map (\<lambda>i. py_int (draws i)) [0..<Nassets]
      in if (case series_min market_shares of Some m \<Rightarrow> m < 0 | None \<Rightarrow> False)
         then Inl (Exception ''A negative market share was generated, please launch again.'')
         else Inr (zip (columns market) market_shares))"

section \<open>Properties\<close>

subsection \<open>Loops and checked list accesses\<close>

lemma for_loop_append:
  "for_loop (is @ js) body s = bindE (for_loop is body s) (for_loop js body)"
proof (induction "is" arbitrary: s)
  case Nil
  show ?case by simp
next
  case (Cons i "is")
  show ?case
  proof (cases "body i s")
    case (Inl e)
    then show ?thesis by simp
  next
    case (Inr s')
    then show ?thesis by (simp add: Cons.IH)
  qed
qed

lemma bindE_eq_Inr: "bindE m f = Inr r \<longleftrightarrow> (\<exists>v. m = Inr v \<and> f v = Inr r)"
  by (cases m) simp_all

lemma for_loop_cong:
  "(\<And>i s. i \<in> set js \<Longrightarrow> f i s = g i s) \<Longrightarrow> for_loop js f s = for_loop js g s"
proof (induction js arbitrary: s)
  case Nil
  show ?case by simp
next
  case (Cons j js)
  have "f j s = g j s" using Cons.prems by simp
  moreover have "for_loop js f = for_loop js g"
    using Cons by (intro ext) simp
  ultimately show ?case by simp
qed

lemma getitem_nat: "getitem xs (int i) = (if i < length xs then Inr (xs ! i) else Inl IndexError)"
  by (simp add: getitem_def py_index_def)

lemma setitem_nat: "setitem xs (int i) v = (if i < length xs then Inr (xs[i := v]) else Inl IndexError)"
  by (simp add: setitem_def py_index_def)

lemma for_loop_last:
  "for_loop (js @ [n]) body s = bindE (for_loop js body s) (body n)"
proof -
  have "for_loop [n] body = body n"
  proof
    fix s show "for_loop [n] body s = body n s" by (cases "body n s") simp_all
  qed
  then show ?thesis by (simp add: for_loop_append)
qed

lemma getitem_back:
  assumes "p < t" "t \<le> length xs"
  shows "getitem xs (int t - int p - 1) = Inr (xs ! (t - p - 1))"
proof -
  have e: "int t - int p - 1 = int (t - p - 1)"
    using assms by simp
  show ?thesis
    by (subst e, subst getitem_nat) (use assms in simp)
qed

lemma seed_loop:
  "n \<le> length sv \<Longrightarrow> n \<le> length x \<Longrightarrow>
   for_loop [0..<n] (seed_value sv) x = Inr (take n sv @ drop n x)"
proof (induction n)
  case 0
  show ?case by simp
next
  case (Suc n)
  have IH: "for_loop [0..<n] (seed_value sv) x = Inr (take n sv @ drop n x)"
    using Suc by simp
  have upd: "(take n sv @ drop n x)[n := sv ! n] = take (Suc n) sv @ drop (Suc n) x"
    using Suc.prems
    by (simp add: take_Suc_conv_app_nth list_update_append Cons_nth_drop_Suc [symmetric])
  have step: "seed_value sv n (take n sv @ drop n x) = Inr (take (Suc n) sv @ drop (Suc n) x)"
    using Suc.prems upd by (simp add: seed_value_def getitem_nat setitem_nat)
  show ?case
    by (simp add: for_loop_last IH step)
qed

lemma seed_loop_short:
  assumes "n \<le> length sv" "length x < n"
  shows "for_loop [0..<n] (seed_value sv) x = Inl IndexError"
proof -
  let ?k = "length x"
  have split: "[0..<n] = [0..<?k] @ ?k # [Suc ?k..<n]"
    using assms by (metis le_add_diff_inverse less_imp_le_nat upt_add_eq_append upt_conv_Cons zero_le)
  have "for_loop [0..<?k] (seed_value sv) x = Inr (take ?k sv @ drop ?k x)"
    using assms by (intro seed_loop) simp_all
  moreover have "seed_value sv ?k (take ?k sv @ drop ?k x) = Inl IndexError"
    using assms by (simp add: seed_value_def getitem_nat setitem_nat)
  ultimately show ?thesis
    by (simp add: split for_loop_append)
qed

lemma AR_terms:
  "n \<le> length coeffs \<Longrightarrow> n \<le> t \<Longrightarrow> t < length x \<Longrightarrow>
   for_loop [0..<n] (AR_term coeffs t) x
     = Inr (x[t := x ! t + (\<Sum>p<n. coeffs ! p * x ! (t - p - 1))])"
proof (induction n)
  case 0
  show ?case by simp
next
  case (Suc n)
  let ?y = "x[t := x ! t + (\<Sum>p<n. coeffs ! p * x ! (t - p - 1))]"
  have IH: "for_loop [0..<n] (AR_term coeffs t) x = Inr ?y"
    using Suc by simp
  have rd: "getitem ?y (int t - int n - 1) = Inr (x ! (t - n - 1))"
    using Suc.prems by (subst getitem_back) simp_all
  have step: "AR_term coeffs t n ?y
      = Inr (x[t := x ! t + (\<Sum>p<Suc n. coeffs ! p * x ! (t - p - 1))])"
    unfolding AR_term_def rd using Suc.prems
    by (simp add: getitem_nat setitem_nat add.assoc)
  show ?case
    by (simp only: upt_Suc_append [OF le0] for_loop_last IH bindE.simps step)
qed

lemma AR_step_value:
  assumes "P \<le> length coeffs" "P \<le> t" "t < length x" "length a = length x"
  shows "AR_step cst coeffs a P t x
     = Inr (x[t := cst + a ! t + (\<Sum>p<P. coeffs ! p * x ! (t - p - 1))])"
proof -
  have "for_loop [0..<P] (AR_term coeffs t) (x[t := cst + a ! t])
      = Inr (x[t := cst + a ! t + (\<Sum>p<P. coeffs ! p * x ! (t - p - 1))])"
    using assms by (simp add: AR_terms)
  with assms show ?thesis
    by (simp add: AR_step_def getitem_nat setitem_nat)
qed

lemma AR_loop:
  assumes "P \<le> length coeffs" "length a = length x"
  shows "P \<le> m \<Longrightarrow> m \<le> length x \<Longrightarrow>
    \<exists>y. for_loop [P..<m] (AR_step cst coeffs a P) x = Inr y \<and> length y = length x \<and>
        (\<forall>i. i < P \<or> m \<le> i \<longrightarrow> y ! i = x ! i) \<and>
        (\<forall>t. P \<le> t \<and> t < m \<longrightarrow> y ! t = cst + a ! t + (\<Sum>p<P. coeffs ! p * y ! (t - p - 1)))"
proof (induction m)
  case 0
  then show ?case by simp
next
  case (Suc m)
  show ?case
  proof (cases "P = Suc m")
    case True
    then show ?thesis by simp
  next
    case False
    with Suc.prems have Pm: "P \<le> m" and mx: "m < length x" by simp_all
    from Suc.IH Pm mx obtain y where
      run: "for_loop [P..<m] (AR_step cst coeffs a P) x = Inr y" and
      len: "length y = length x" and
      same: "\<And>i. i < P \<or> m \<le> i \<Longrightarrow> y ! i = x ! i" and
      rec: "\<And>t. P \<le> t \<Longrightarrow> t < m \<Longrightarrow>
              y ! t = cst + a ! t + (\<Sum>p<P. coeffs ! p * y ! (t - p - 1))"
      by auto
    let ?v = "cst + a ! m + (\<Sum>p<P. coeffs ! p * y ! (m - p - 1))"
    let ?z = "y[m := ?v]"
    have step: "AR_step cst coeffs a P m y = Inr ?z"
      using assms Pm mx len by (simp add: AR_step_value)
    have loop: "for_loop [P..<Suc m] (AR_step cst coeffs a P) x = Inr ?z"
      using Pm by (simp add: for_loop_last run step)
    have older: "?z ! (t - p - 1) = y ! (t - p - 1)" if "t \<le> m" "p < P" for t p
      using that Pm by (cases "t - p - 1 = m") (auto simp: nth_list_update)
    have recz: "?z ! t = cst + a ! t + (\<Sum>p<P. coeffs ! p * ?z ! (t - p - 1))"
      if t: "P \<le> t" "t < Suc m" for t
    proof -
      have sums: "(\<Sum>p<P. coeffs ! p * ?z ! (t - p - 1)) = (\<Sum>p<P. coeffs ! p * y ! (t - p - 1))"
        using t older by (intro sum.cong) simp_all
      show ?thesis
      proof (cases "t = m")
        case True
        with mx len sums show ?thesis by simp
      next
        case False
        with t have "t < m" by simp
        with t rec [of t] sums False show ?thesis by simp
      qed
    qed
    have samez: "?z ! i = x ! i" if "i < P \<or> Suc m \<le> i" for i
      using that Pm same [of i] by (auto simp: nth_list_update)
    have lenz: "length ?z = length x"
      using len by simp
    show ?thesis
      using loop lenz samez recz by blast
  qed
qed

subsection \<open>Validation of the orders\<close>

text \<open>
  Claim C5. An AR, MA or ARMA call in which the length of a coefficient list differs from
  its declared order, or (AR, ARMA) the length of the start values differs from the order,
  ends with the \<^verbatim>\<open>AssertionError\<close> of the leading \<^verbatim>\<open>assert\<close> statements, whatever
  the length of the date index and the noise are: the tests stand before the noise is drawn
  and before the list \<open>x\<close> is built, and no series is returned.
\<close>

theorem parameter_mismatch_fails_first:
  "(int (length coeffs) \<noteq> order \<or> int (length start_values) \<noteq> order \<longrightarrow>
      AutoRegressive T start_values cst order coeffs sigma draws = Inl AssertionError) \<and>
   (int (length coeffs) \<noteq> order \<longrightarrow>
      MovingAverage T cst order coeffs sigma draws = Inl AssertionError) \<and>
   (int (length ARcoeffs) \<noteq> ARorder \<or> int (length MAcoeffs) \<noteq> MAorder \<or>
    int (length start_values) \<noteq> ARorder \<longrightarrow>
      ARMA T start_values cst ARorder ARcoeffs MAorder MAcoeffs sigma draws = Inl AssertionError)"
  by (simp add: AutoRegressive_def MovingAverage_def ARMA_def)

theorem parameter_mismatch_fails_first_witness:
  "AutoRegressive 5 [1, 2] 0 2 [1] 1 (\<lambda>_. 0) = Inl AssertionError \<and>
   MovingAverage 5 0 2 [1] 1 (\<lambda>_. 0) = Inl AssertionError \<and>
   ARMA 5 [1, 2] 0 1 [1] 1 [] 1 (\<lambda>_. 0) = Inl AssertionError"
  using parameter_mismatch_fails_first [of "[1]" 2 "[1, 2]" 5 0 1 "\<lambda>_. 0" "[1]" 1 "[]" 1]
  by simp

subsection \<open>The auto-regressive series\<close>

lemma AutoRegressive_run:
  assumes valid: "int (length coeffs) = order" "int (length start_values) = order"
    and fits: "length start_values \<le> T"
  shows "\<exists>x. length x = T \<and> take (length start_values) x = start_values \<and>
      (\<forall>t. length start_values \<le> t \<and> t < T \<longrightarrow>
         x ! t = cst + draws t + (\<Sum>p<length start_values. coeffs ! p * x ! (t - p - 1))) \<and>
      AutoRegressive T start_values cst order coeffs sigma draws
        = bindE (py_div cst (1 - py_sum coeffs)) (\<lambda>E. Inr \<lparr>printed = [E], series = x\<rparr>)"
proof -
  let ?P = "length start_values"
  let ?a = "np_random_normal T draws"
  let ?x0 = "start_values @ replicate (T - ?P) 0"
  have seeded: "for_loop [0..<?P] (seed_value start_values) (replicate T 0) = Inr ?x0"
    using fits by (simp add: seed_loop)
  have lens: "?P \<le> length coeffs" "length ?a = length ?x0" "?P \<le> T" "T \<le> length ?x0"
    using valid fits by (simp_all add: np_random_normal_def)
  from AR_loop [OF lens, of cst] obtain y where
    run: "for_loop [?P..<T] (AR_step cst coeffs ?a ?P) ?x0 = Inr y" and
    len: "length y = length ?x0" and
    same: "\<And>i. i < ?P \<or> T \<le> i \<Longrightarrow> y ! i = ?x0 ! i" and
    rec: "\<And>t. ?P \<le> t \<Longrightarrow> t < T \<Longrightarrow>
            y ! t = cst + ?a ! t + (\<Sum>p<?P. coeffs ! p * y ! (t - p - 1))"
    by blast
  have "length y = T"
    using len fits by simp
  moreover have "take ?P y = start_values"
    using same len fits by (intro nth_equalityI) (simp_all add: nth_append)
  moreover have "y ! t = cst + draws t + (\<Sum>p<?P. coeffs ! p * y ! (t - p - 1))"
    if "?P \<le> t" "t < T" for t
    using rec [OF that] that by (simp add: np_random_normal_def)
  moreover have "AutoRegressive T start_values cst order coeffs sigma draws
      = bindE (py_div cst (1 - py_sum coeffs)) (\<lambda>E. Inr \<lparr>printed = [E], series = y\<rparr>)"
    using valid by (simp add: AutoRegressive_def Let_def seeded run)
  ultimately show ?thesis by blast
qed

lemma AutoRegressive_short:
  assumes "int (length coeffs) = order" "int (length start_values) = order"
    and "T < length start_values"
  shows "AutoRegressive T start_values cst order coeffs sigma draws = Inl IndexError"
  using assms by (simp add: AutoRegressive_def Let_def seed_loop_short)

text \<open>
  Claim C2. If the lengths of \<open>coeffs\<close> and \<open>start_values\<close> are the order \<open>P\<close> and
  \<^verbatim>\<open>AutoRegressive\<close> returns a series \<open>x\<close>, then \<open>x\<close> has the \<open>T\<close> values of the date
  index, its first \<open>P\<close> values are \<open>start_values\<close>, and for every \<open>t\<close> with \<open>P \<le> t < T\<close>
  \<open>x[t] = cst + noise[t] + \<Sum>p<P. coeffs[p] * x[t-p-1]\<close>.
\<close>

theorem AutoRegressive_recursion:
  assumes "int (length coeffs) = order" "int (length start_values) = order"
    and "AutoRegressive T start_values cst order coeffs sigma draws = Inr rs"
  shows "length (series rs) = T \<and>
     take (length start_values) (series rs) = start_values \<and>
     (\<forall>t. length start_values \<le> t \<and> t < T \<longrightarrow>
        series rs ! t = cst + draws t
          + (\<Sum>p<length start_values. coeffs ! p * series rs ! (t - p - 1)))"
proof (cases "length start_values \<le> T")
  case True
  from AutoRegressive_run [OF assms(1,2) True, of cst draws sigma] obtain x where
    x: "length x = T" "take (length start_values) x = start_values"
      "\<forall>t. length start_values \<le> t \<and> t < T \<longrightarrow>
         x ! t = cst + draws t + (\<Sum>p<length start_values. coeffs ! p * x ! (t - p - 1))" and
    run: "AutoRegressive T start_values cst order coeffs sigma draws
        = bindE (py_div cst (1 - py_sum coeffs)) (\<lambda>E. Inr \<lparr>printed = [E], series = x\<rparr>)"
    by blast
  from run assms(3)
  have "bindE (py_div cst (1 - py_sum coeffs)) (\<lambda>E. Inr \<lparr>printed = [E], series = x\<rparr>) = Inr rs"
    by simp
  then have "series rs = x"
    by (auto simp: bindE_eq_Inr)
  with x show ?thesis by simp
next
  case False
  with AutoRegressive_short [OF assms(1,2), of T cst sigma draws] assms(3)
  show ?thesis by simp
qed

lemma AutoRegressive_returns:
  assumes "int (length coeffs) = order" "int (length start_values) = order"
    and "length start_values \<le> T" and "py_sum coeffs \<noteq> 1"
  shows "\<exists>rs. AutoRegressive T start_values cst order coeffs sigma draws = Inr rs"
proof -
  from AutoRegressive_run [OF assms(1-3), of cst draws sigma] obtain x where
    "AutoRegressive T start_values cst order coeffs sigma draws
        = bindE (py_div cst (1 - py_sum coeffs)) (\<lambda>E. Inr \<lparr>printed = [E], series = x\<rparr>)"
    by blast
  with assms(4) show ?thesis by (simp add: py_div_def)
qed

theorem AutoRegressive_recursion_witness:
  "AutoRegressive 4 [1, 2] 1 2 [2, 3] 1 (\<lambda>t. real t) = Inr \<lparr>printed = [- 1 / 4], series = [1, 2, 10, 30]\<rparr> \<and>
   take 2 [1, 2, 10, 30 :: real] = [1, 2] \<and>
   [1, 2, 10, 30 :: real] ! 2 = 1 + 2 + (2 * 2 + 3 * 1) \<and>
   [1, 2, 10, 30 :: real] ! 3 = 1 + 3 + (2 * 10 + 3 * 2)"
proof -
  have run: "AutoRegressive 4 [1, 2] 1 2 [2, 3] 1 (\<lambda>t. real t)
      = Inr \<lparr>printed = [- 1 / 4], series = [1, 2, 10, 30]\<rparr>"
    by (simp add: AutoRegressive_def Let_def np_random_normal_def eval_nat_numeral upt_rec
        seed_value_def AR_step_def AR_term_def getitem_def setitem_def py_index_def
        py_div_def py_sum_def)
  from AutoRegressive_recursion [OF _ _ run] run show ?thesis
    by simp
qed

subsection \<open>The undefined stationary mean\<close>

lemma AutoRegressive_unit_sum_no_result:
  assumes "py_sum coeffs = 1"
  shows "AutoRegressive T start_values cst order coeffs sigma draws \<noteq> Inr rs"
  using assms
  by (auto simp: AutoRegressive_def Let_def bindE_eq_Inr py_div_def)

text \<open>
  Claim C9. When the coefficients of an \<^verbatim>\<open>AutoRegressive\<close> call sum to 1, the call returns
  no series and prints no mean: a call that passes the length tests and whose start values
  fit the date index ends with the \<^verbatim>\<open>ZeroDivisionError\<close> of
  \<^verbatim>\<open>cst / (1 - sum(coeffs))\<close>, which reaches the caller.
\<close>

theorem AutoRegressive_unit_sum_raises:
  assumes "py_sum coeffs = 1"
  shows "(\<forall>rs. AutoRegressive T start_values cst order coeffs sigma draws \<noteq> Inr rs) \<and>
     (int (length coeffs) = order \<and> int (length start_values) = order \<and> length start_values \<le> T
        \<longrightarrow> AutoRegressive T start_values cst order coeffs sigma draws = Inl ZeroDivisionError)"
proof (intro conjI allI impI)
  fix rs
  show "AutoRegressive T start_values cst order coeffs sigma draws \<noteq> Inr rs"
    using assms by (rule AutoRegressive_unit_sum_no_result)
next
  assume v: "int (length coeffs) = order \<and> int (length start_values) = order \<and> length start_values \<le> T"
  then obtain x where
    "AutoRegressive T start_values cst order coeffs sigma draws
        = bindE (py_div cst (1 - py_sum coeffs)) (\<lambda>E. Inr \<lparr>printed = [E], series = x\<rparr>)"
    using AutoRegressive_run [of coeffs order start_values T cst draws sigma] by blast
  with assms show "AutoRegressive T start_values cst order coeffs sigma draws = Inl ZeroDivisionError"
    by (simp add: py_div_def)
qed

theorem AutoRegressive_unit_sum_raises_witness:
  "py_sum [1] = 1 \<and>
   AutoRegressive 10 [1] 0 1 [1] 0 (\<lambda>_. 0) = Inl ZeroDivisionError"
  using AutoRegressive_unit_sum_raises [of "[1]" 10 "[1]" 0 1 0 "\<lambda>_. 0"]
  by (simp add: py_sum_def)

subsection \<open>Noise that is drawn and not used\<close>

lemma AR_step_noise:
  assumes "t < T" "draws t = draws' t"
  shows "AR_step cst coeffs (np_random_normal T draws) P t x
       = AR_step cst coeffs (np_random_normal T draws') P t x"
  using assms by (simp add: AR_step_def getitem_nat np_random_normal_def)

lemma RW_step_noise:
  assumes "t < T" "draws t = draws' t"
  shows "RW_step (np_random_normal T draws) t x = RW_step (np_random_normal T draws') t x"
  using assms by (simp add: RW_step_def getitem_nat np_random_normal_def)

text \<open>
  Claim C10. The result of \<^verbatim>\<open>AutoRegressive\<close> does not depend on the first \<open>P\<close> draws of
  the noise, and the result of \<^verbatim>\<open>RandomWalk\<close> does not depend on draw 0: two noise
  vectors of length \<open>T\<close> that agree from index \<open>P\<close> (from index 1) on give the same result,
  be it a series or an exception.
\<close>

theorem unused_noise_is_not_observed:
  "((\<forall>t. length start_values \<le> t \<and> t < T \<longrightarrow> draws t = draws' t) \<longrightarrow>
      AutoRegressive T start_values cst order coeffs sigma draws
        = AutoRegressive T start_values cst order coeffs sigma draws') \<and>
   ((\<forall>t. 1 \<le> t \<and> t < T \<longrightarrow> draws t = draws' t) \<longrightarrow>
      RandomWalk T start_value sigma draws = RandomWalk T start_value sigma draws')"
proof (intro conjI impI)
  assume agree: "\<forall>t. length start_values \<le> t \<and> t < T \<longrightarrow> draws t = draws' t"
  let ?P = "length start_values"
  have "for_loop [?P..<T] (AR_step cst coeffs (np_random_normal T draws) ?P) x
      = for_loop [?P..<T] (AR_step cst coeffs (np_random_normal T draws') ?P) x" for x
    using agree by (intro for_loop_cong AR_step_noise) simp_all
  then show "AutoRegressive T start_values cst order coeffs sigma draws
     = AutoRegressive T start_values cst order coeffs sigma draws'"
    by (simp add: AutoRegressive_def Let_def)
next
  assume agree: "\<forall>t. 1 \<le> t \<and> t < T \<longrightarrow> draws t = draws' t"
  have "for_loop [1..<T] (RW_step (np_random_normal T draws)) x
      = for_loop [1..<T] (RW_step (np_random_normal T draws')) x" for x
    using agree by (intro for_loop_cong RW_step_noise) simp_all
  then show "RandomWalk T start_value sigma draws = RandomWalk T start_value sigma draws'"
    by (simp add: RandomWalk_def Let_def)
qed

theorem unused_noise_is_not_observed_witness:
  "AutoRegressive 4 [1, 2] 1 2 [2, 3] 1 (\<lambda>t. if t < 2 then 5 else real t)
     = AutoRegressive 4 [1, 2] 1 2 [2, 3] 1 (\<lambda>t. if t < 2 then 7 else real t) \<and>
   RandomWalk 4 1 1 (\<lambda>t. if t < 1 then 5 else real t)
     = RandomWalk 4 1 1 (\<lambda>t. if t < 1 then 7 else real t)"
  using
    unused_noise_is_not_observed [of "[1, 2]" 4 "\<lambda>t. if t < 2 then 5 else real t"
      "\<lambda>t. if t < 2 then 7 else real t" 1 2 "[2, 3]" 1 1]
    unused_noise_is_not_observed [of "[1, 2]" 4 "\<lambda>t. if t < 1 then 5 else real t"
      "\<lambda>t. if t < 1 then 7 else real t" 1 2 "[2, 3]" 1 1]
  by simp

subsection \<open>The moving-average series\<close>

lemma lag_guard: "(int t - int q - 1 \<ge> 0) = (q + 1 \<le> t)"
  by auto

lemma MA_terms:
  "n \<le> length coeffs \<Longrightarrow> t < length x \<Longrightarrow> t < length a \<Longrightarrow>
   for_loop [0..<n] (MA_term coeffs a t) x
     = Inr (x[t := x ! t - (\<Sum>q<n. if q + 1 \<le> t then coeffs ! q * a ! (t - q - 1) else 0)])"
proof (induction n)
  case 0
  show ?case by simp
next
  case (Suc n)
  let ?s = "\<lambda>n. \<Sum>q<n. if q + 1 \<le> t then coeffs ! q * a ! (t - q - 1) else 0"
  let ?y = "x[t := x ! t - ?s n]"
  have IH: "for_loop [0..<n] (MA_term coeffs a t) x = Inr ?y"
    using Suc by simp
  have step: "MA_term coeffs a t n ?y = Inr (x[t := x ! t - ?s (Suc n)])"
  proof (cases "n + 1 \<le> t")
    case True
    then have rd: "getitem a (int t - int n - 1) = Inr (a ! (t - n - 1))"
      using Suc.prems by (subst getitem_back) simp_all
    show ?thesis
      unfolding MA_term_def lag_guard rd using True Suc.prems
      by (simp add: getitem_nat setitem_nat algebra_simps)
  next
    case False
    then show ?thesis
      unfolding MA_term_def lag_guard using Suc.prems by simp
  qed
  show ?case
    by (simp only: upt_Suc_append [OF le0] for_loop_last IH bindE.simps step)
qed

lemma MA_step_value:
  assumes "Q \<le> length coeffs" "t < length x" "length a = length x"
  shows "MA_step cst coeffs a Q t x
     = Inr (x[t := cst + a ! t - (\<Sum>q<Q. if q + 1 \<le> t then coeffs ! q * a ! (t - q - 1) else 0)])"
proof -
  have "for_loop [0..<Q] (MA_term coeffs a t) (x[t := cst + a ! t])
      = Inr (x[t := cst + a ! t - (\<Sum>q<Q. if q + 1 \<le> t then coeffs ! q * a ! (t - q - 1) else 0)])"
    using assms by (simp add: MA_terms)
  with assms show ?thesis
    by (simp add: MA_step_def getitem_nat setitem_nat)
qed

lemma MA_loop:
  assumes "Q \<le> length coeffs" "length a = length x"
  shows "m \<le> length x \<Longrightarrow>
    for_loop [0..<m] (MA_step cst coeffs a Q) x
      = Inr (map (\<lambda>t. cst + a ! t - (\<Sum>q<Q. if q + 1 \<le> t then coeffs ! q * a ! (t - q - 1) else 0)) [0..<m]
             @ drop m x)"
proof (induction m)
  case 0
  show ?case by simp
next
  case (Suc m)
  let ?f = "\<lambda>t. cst + a ! t - (\<Sum>q<Q. if q + 1 \<le> t then coeffs ! q * a ! (t - q - 1) else 0)"
  let ?y = "map ?f [0..<m] @ drop m x"
  have IH: "for_loop [0..<m] (MA_step cst coeffs a Q) x = Inr ?y"
    using Suc by simp
  have "MA_step cst coeffs a Q m ?y = Inr (?y[m := ?f m])"
    using assms Suc.prems by (intro MA_step_value) simp_all
  moreover have "?y[m := ?f m] = map ?f [0..<Suc m] @ drop (Suc m) x"
    using Suc.prems
    by (simp add: list_update_append Cons_nth_drop_Suc [symmetric])
  ultimately have step: "MA_step cst coeffs a Q m ?y = Inr (map ?f [0..<Suc m] @ drop (Suc m) x)"
    by simp
  show ?case
    by (simp only: upt_Suc_append [OF le0] for_loop_last IH bindE.simps step)
qed

lemma MA_variance_loop:
  "n \<le> length coeffs \<Longrightarrow>
   for_loop [0..<n] (MA_variance_term coeffs) V = Inr (V + (\<Sum>q<n. (coeffs ! q)\<^sup>2))"
proof (induction n)
  case 0
  show ?case by simp
next
  case (Suc n)
  have IH: "for_loop [0..<n] (MA_variance_term coeffs) V = Inr (V + (\<Sum>q<n. (coeffs ! q)\<^sup>2))"
    using Suc by simp
  have step: "MA_variance_term coeffs n (V + (\<Sum>q<n. (coeffs ! q)\<^sup>2))
      = Inr (V + (\<Sum>q<Suc n. (coeffs ! q)\<^sup>2))"
    using Suc.prems by (simp add: MA_variance_term_def getitem_nat)
  show ?case
    by (simp only: upt_Suc_append [OF le0] for_loop_last IH bindE.simps step)
qed

lemma lagged_sum:
  "(\<Sum>q<Q. if q + 1 \<le> t then g q else 0) = (\<Sum>q | q < Q \<and> q + 1 \<le> (t::nat). (g q :: real))"
proof -
  have "(\<Sum>q | q < Q \<and> q + 1 \<le> t. g q) = sum g {q \<in> {..<Q}. q + 1 \<le> t}"
    by simp
  also have "\<dots> = (\<Sum>q<Q. if q + 1 \<le> t then g q else 0)"
    by (rule sum.inter_filter) simp
  finally show ?thesis by simp
qed

lemma MovingAverage_run:
  assumes "int (length coeffs) = order"
  shows "MovingAverage T cst order coeffs sigma draws
     = Inr \<lparr>printed = [cst, (1 + (\<Sum>q<length coeffs. (coeffs ! q)\<^sup>2)) * sigma\<^sup>2,
                       sqrt ((1 + (\<Sum>q<length coeffs. (coeffs ! q)\<^sup>2)) * sigma\<^sup>2)],
            series = map (\<lambda>t. cst + draws t
                       - (\<Sum>q | q < length coeffs \<and> q + 1 \<le> t. coeffs ! q * draws (t - q - 1)))
                     [0..<T]\<rparr>"
proof -
  let ?Q = "length coeffs"
  let ?a = "np_random_normal T draws"
  have Q: "nat order = ?Q"
    using assms by auto
  have "for_loop [0..<T] (MA_step cst coeffs ?a ?Q) (replicate T 0)
      = Inr (map (\<lambda>t. cst + ?a ! t - (\<Sum>q<?Q. if q + 1 \<le> t then coeffs ! q * ?a ! (t - q - 1) else 0)) [0..<T]
             @ drop T (replicate T 0))"
    by (intro MA_loop) (simp_all add: np_random_normal_def)
  also have "map (\<lambda>t. cst + ?a ! t - (\<Sum>q<?Q. if q + 1 \<le> t then coeffs ! q * ?a ! (t - q - 1) else 0)) [0..<T]
      = map (\<lambda>t. cst + draws t
               - (\<Sum>q | q < ?Q \<and> q + 1 \<le> t. coeffs ! q * draws (t - q - 1))) [0..<T]"
  proof (rule map_cong [OF refl])
    fix t assume "t \<in> set [0..<T]"
    then have t: "t < T" by simp
    have "(\<Sum>q<?Q. if q + 1 \<le> t then coeffs ! q * ?a ! (t - q - 1) else 0)
        = (\<Sum>q<?Q. if q + 1 \<le> t then coeffs ! q * draws (t - q - 1) else 0)"
      using t by (intro sum.cong) (auto simp: np_random_normal_def)
    moreover have "?a ! t = draws t"
      using t by (simp add: np_random_normal_def)
    ultimately show "cst + ?a ! t - (\<Sum>q<?Q. if q + 1 \<le> t then coeffs ! q * ?a ! (t - q - 1) else 0)
        = cst + draws t - (\<Sum>q | q < ?Q \<and> q + 1 \<le> t. coeffs ! q * draws (t - q - 1))"
      by (simp only: lagged_sum)
  qed
  finally have loop: "for_loop [0..<T] (MA_step cst coeffs ?a ?Q) (replicate T 0)
      = Inr (map (\<lambda>t. cst + draws t
               - (\<Sum>q | q < ?Q \<and> q + 1 \<le> t. coeffs ! q * draws (t - q - 1))) [0..<T])"
    by simp
  have var: "for_loop [0..<?Q] (MA_variance_term coeffs) 1 = Inr (1 + (\<Sum>q<?Q. (coeffs ! q)\<^sup>2))"
    by (simp add: MA_variance_loop)
  show ?thesis
    using assms by (simp add: MovingAverage_def Let_def Q loop var)
qed

text \<open>
  Claim C3. A \<^verbatim>\<open>MovingAverage\<close> call whose coefficient list has the length of the order
  returns a series of \<open>T\<close> values with, at every index \<open>t < T\<close> (also \<open>t < Q\<close>),
  \<open>x[t] = cst + noise[t] - \<Sum> coeffs[q] * noise[t-q-1]\<close> over the \<open>q < Q\<close> with \<open>t-q-1 \<ge> 0\<close>;
  when all the noise is zero the series is \<open>cst\<close> at every index.
\<close>

theorem MovingAverage_recursion:
  assumes "int (length coeffs) = order"
  shows "\<exists>rs. MovingAverage T cst order coeffs sigma draws = Inr rs \<and>
     length (series rs) = T \<and>
     (\<forall>t<T. series rs ! t = cst + draws t
        - (\<Sum>q | q < length coeffs \<and> q + 1 \<le> t. coeffs ! q * draws (t - q - 1))) \<and>
     ((\<forall>t<T. draws t = 0) \<longrightarrow> (\<forall>t<T. series rs ! t = cst))"
proof -
  have zero: "cst + draws t - (\<Sum>q | q < length coeffs \<and> q + 1 \<le> t. coeffs ! q * draws (t - q - 1)) = cst"
    if "\<forall>t<T. draws t = 0" "t < T" for t
  proof -
    have "(\<Sum>q | q < length coeffs \<and> q + 1 \<le> t. coeffs ! q * draws (t - q - 1))
        = (\<Sum>q | q < length coeffs \<and> q + 1 \<le> t. 0)"
      using that by (intro sum.cong) auto
    with that show ?thesis by simp
  qed
  show ?thesis
    unfolding MovingAverage_run [OF assms] using zero by simp
qed

theorem MovingAverage_recursion_witness:
  "MovingAverage 3 1 2 [2, 3] 1 (\<lambda>t. real t + 1)
     = Inr \<lparr>printed = [1, 14, sqrt 14], series = [2, 1, - 3]\<rparr> \<and>
   MovingAverage 3 1 2 [2, 3] 0 (\<lambda>t. 0)
     = Inr \<lparr>printed = [1, 0, 0], series = [1, 1, 1]\<rparr>"
proof -
  have run: "MovingAverage 3 1 2 [2, 3] 1 (\<lambda>t. real t + 1)
      = Inr \<lparr>printed = [1, 14, sqrt 14], series = [2, 1, - 3]\<rparr>"
    by (simp add: MovingAverage_def Let_def np_random_normal_def eval_nat_numeral upt_rec
        MA_step_def MA_term_def MA_variance_term_def getitem_def setitem_def py_index_def)
  have run0: "MovingAverage 3 1 2 [2, 3] 0 (\<lambda>t. 0)
      = Inr \<lparr>printed = [1, 0, 0], series = [1, 1, 1]\<rparr>"
    by (simp add: MovingAverage_def Let_def np_random_normal_def eval_nat_numeral upt_rec
        MA_step_def MA_term_def MA_variance_term_def getitem_def setitem_def py_index_def)
  from MovingAverage_recursion [of "[2, 3]" 2 3 1 1 "\<lambda>t. real t + 1"]
    MovingAverage_recursion [of "[2, 3]" 2 3 1 0 "\<lambda>t. 0"] run run0
  show ?thesis by simp
qed

subsection \<open>The ARMA series\<close>

lemma getitem_zero: "getitem xs 0 = (if 0 < length xs then Inr (xs ! 0) else Inl IndexError)"
  using getitem_nat [of xs 0] by simp

lemma setitem_zero: "setitem xs 0 v = (if 0 < length xs then Inr (xs[0 := v]) else Inl IndexError)"
  using setitem_nat [of xs 0 v] by simp

lemma getitem_diff:
  assumes "p \<le> t" "t < length xs"
  shows "getitem xs (int t - int p) = Inr (xs ! (t - p))"
proof -
  have e: "int t - int p = int (t - p)"
    using assms by simp
  show ?thesis
    by (subst e, subst getitem_nat) (use assms in simp)
qed

lemma ARMA_AR_terms:
  "n \<le> length c \<Longrightarrow> n \<le> t \<Longrightarrow> t < length x \<Longrightarrow>
   for_loop [0..<n] (ARMA_AR_term c t) x
     = Inr (x[t := x ! t + (if 0 < n then c ! 0 * x ! t else 0)
                     + (\<Sum>p = 1..<n. c ! p * x ! (t - p))])"
proof (induction n)
  case 0
  show ?case by simp
next
  case (Suc n)
  let ?w = "\<lambda>n. x ! t + (if 0 < n then c ! 0 * x ! t else 0) + (\<Sum>p = 1..<n. c ! p * x ! (t - p))"
  let ?y = "x[t := ?w n]"
  have IH: "for_loop [0..<n] (ARMA_AR_term c t) x = Inr ?y"
    using Suc by simp
  have rd: "getitem ?y (int t - int n) = Inr (?y ! (t - n))"
    using Suc.prems by (subst getitem_diff) simp_all
  have step: "ARMA_AR_term c t n ?y = Inr (x[t := ?w (Suc n)])"
  proof (cases "n = 0")
    case True
    moreover have "c \<noteq> []"
      using Suc.prems by auto
    ultimately show ?thesis
      unfolding ARMA_AR_term_def rd using Suc.prems
      by (simp add: getitem_nat getitem_zero setitem_nat)
  next
    case False
    with Suc.prems have "?y ! (t - n) = x ! (t - n)"
      by simp
    with False Suc.prems show ?thesis
      unfolding ARMA_AR_term_def rd by (simp add: getitem_nat setitem_nat add.assoc)
  qed
  show ?case
    by (simp only: upt_Suc_append [OF le0] for_loop_last IH bindE.simps step)
qed

lemma ARMA_MA_terms:
  "n \<le> length c \<Longrightarrow> t < length x \<Longrightarrow>
   for_loop [0..<n] (ARMA_MA_term c t) x
     = Inr (x[t := x ! t - (\<Sum>q<n. if q + 1 \<le> t then c ! q * x ! (t - q - 1) else 0)])"
proof (induction n)
  case 0
  show ?case by simp
next
  case (Suc n)
  let ?s = "\<lambda>n. \<Sum>q<n. if q + 1 \<le> t then c ! q * x ! (t - q - 1) else 0"
  let ?y = "x[t := x ! t - ?s n]"
  have IH: "for_loop [0..<n] (ARMA_MA_term c t) x = Inr ?y"
    using Suc by simp
  have step: "ARMA_MA_term c t n ?y = Inr (x[t := x ! t - ?s (Suc n)])"
  proof (cases "n + 1 \<le> t")
    case True
    then have rd: "getitem ?y (int t - int n - 1) = Inr (x ! (t - n - 1))"
      using Suc.prems by (subst getitem_back) simp_all
    show ?thesis
      unfolding ARMA_MA_term_def lag_guard rd using True Suc.prems
      by (simp add: getitem_nat setitem_nat algebra_simps)
  next
    case False
    then show ?thesis
      unfolding ARMA_MA_term_def lag_guard using Suc.prems by simp
  qed
  show ?case
    by (simp only: upt_Suc_append [OF le0] for_loop_last IH bindE.simps step)
qed

lemma ARMA_step_value:
  assumes "P \<le> length ARcoeffs" "P \<le> t" "Q \<le> length MAcoeffs" "t < length x" "length a = length x"
  shows "ARMA_step cst ARcoeffs MAcoeffs a P Q t x
     = Inr (x[t := cst + a ! t + (if 0 < P then ARcoeffs ! 0 * (cst + a ! t) else 0)
                     + (\<Sum>p = 1..<P. ARcoeffs ! p * x ! (t - p))
                     - (\<Sum>q<Q. if q + 1 \<le> t then MAcoeffs ! q * x ! (t - q - 1) else 0)])"
proof -
  define v where "v = cst + a ! t"
  define w where "w = v + (if 0 < P then ARcoeffs ! 0 * v else 0)
              + (\<Sum>p = 1..<P. ARcoeffs ! p * x ! (t - p))"
  define s where "s = (\<Sum>q<Q. if q + 1 \<le> t then MAcoeffs ! q * x ! (t - q - 1) else 0)"
  have "(\<Sum>p = 1..<P. ARcoeffs ! p * x[t := v] ! (t - p)) = (\<Sum>p = 1..<P. ARcoeffs ! p * x ! (t - p))"
  proof (rule sum.cong [OF refl])
    fix p assume "p \<in> {1..<P}"
    with assms have "t - p \<noteq> t" by auto
    then show "ARcoeffs ! p * x[t := v] ! (t - p) = ARcoeffs ! p * x ! (t - p)"
      by simp
  qed
  with assms have ar: "for_loop [0..<P] (ARMA_AR_term ARcoeffs t) (x[t := v]) = Inr (x[t := w])"
    by (simp add: ARMA_AR_terms w_def)
  have "(\<Sum>q<Q. if q + 1 \<le> t then MAcoeffs ! q * x[t := w] ! (t - q - 1) else 0) = s"
    unfolding s_def by (intro sum.cong) auto
  with assms have ma: "for_loop [0..<Q] (ARMA_MA_term MAcoeffs t) (x[t := w]) = Inr (x[t := w - s])"
    by (simp add: ARMA_MA_terms)
  have "ARMA_step cst ARcoeffs MAcoeffs a P Q t x = Inr (x[t := w - s])"
    using assms by (simp add: ARMA_step_def getitem_nat setitem_nat ar ma flip: v_def)
  then show ?thesis
    by (simp only: w_def s_def v_def)
qed

lemma ARMA_loop:
  assumes "P \<le> length ARcoeffs" "Q \<le> length MAcoeffs" "length a = length x"
  shows "P \<le> m \<Longrightarrow> m \<le> length x \<Longrightarrow>
    \<exists>y. for_loop [P..<m] (ARMA_step cst ARcoeffs MAcoeffs a P Q) x = Inr y \<and> length y = length x \<and>
        (\<forall>i. i < P \<or> m \<le> i \<longrightarrow> y ! i = x ! i) \<and>
        (\<forall>t. P \<le> t \<and> t < m \<longrightarrow>
           y ! t = cst + a ! t + (if 0 < P then ARcoeffs ! 0 * (cst + a ! t) else 0)
                     + (\<Sum>p = 1..<P. ARcoeffs ! p * y ! (t - p))
                     - (\<Sum>q<Q. if q + 1 \<le> t then MAcoeffs ! q * y ! (t - q - 1) else 0))"
proof (induction m)
  case 0
  then show ?case by simp
next
  case (Suc m)
  show ?case
  proof (cases "P = Suc m")
    case True
    then show ?thesis by simp
  next
    case False
    with Suc.prems have Pm: "P \<le> m" and mx: "m < length x" by simp_all
    define f where "f = (\<lambda>y t. cst + a ! t + (if 0 < P then ARcoeffs ! 0 * (cst + a ! t) else 0)
                     + (\<Sum>p = 1..<P. ARcoeffs ! p * y ! (t - p))
                     - (\<Sum>q<Q. if q + 1 \<le> t then MAcoeffs ! q * y ! (t - q - 1) else 0))"
    from Suc.IH Pm mx obtain y where
      run: "for_loop [P..<m] (ARMA_step cst ARcoeffs MAcoeffs a P Q) x = Inr y" and
      len: "length y = length x" and
      same: "\<And>i. i < P \<or> m \<le> i \<Longrightarrow> y ! i = x ! i" and
      rec: "\<And>t. P \<le> t \<Longrightarrow> t < m \<Longrightarrow> y ! t = f y t"
      unfolding f_def by auto
    let ?z = "y[m := f y m]"
    have step: "ARMA_step cst ARcoeffs MAcoeffs a P Q m y = Inr ?z"
      unfolding f_def using assms Pm mx len by (simp add: ARMA_step_value)
    have loop: "for_loop [P..<Suc m] (ARMA_step cst ARcoeffs MAcoeffs a P Q) x = Inr ?z"
      using Pm by (simp add: for_loop_last run step)
    have keep: "f ?z t = f y t" if t: "P \<le> t" "t \<le> m" for t
    proof -
      have "(\<Sum>p = 1..<P. ARcoeffs ! p * ?z ! (t - p)) = (\<Sum>p = 1..<P. ARcoeffs ! p * y ! (t - p))"
      proof (rule sum.cong [OF refl])
        fix p assume "p \<in> {1..<P}"
        with t have "t - p \<noteq> m" by auto
        then show "ARcoeffs ! p * ?z ! (t - p) = ARcoeffs ! p * y ! (t - p)"
          by simp
      qed
      moreover
      have "(\<Sum>q<Q. if q + 1 \<le> t then MAcoeffs ! q * ?z ! (t - q - 1) else 0)
          = (\<Sum>q<Q. if q + 1 \<le> t then MAcoeffs ! q * y ! (t - q - 1) else 0)"
      proof (rule sum.cong [OF refl])
        fix q assume "q \<in> {..<Q}"
        show "(if q + 1 \<le> t then MAcoeffs ! q * ?z ! (t - q - 1) else 0)
            = (if q + 1 \<le> t then MAcoeffs ! q * y ! (t - q - 1) else 0)"
        proof (cases "q + 1 \<le> t")
          case True
          with t have "t - q - 1 \<noteq> m" by auto
          then show ?thesis by simp
        next
          case False
          then show ?thesis by simp
        qed
      qed
      ultimately show ?thesis
        by (simp only: f_def)
    qed
    have recz: "?z ! t = f ?z t" if t: "P \<le> t" "t < Suc m" for t
    proof (cases "t = m")
      case True
      with mx len keep [of m] Pm show ?thesis by simp
    next
      case False
      with t have "t < m" by simp
      with t rec [of t] keep [of t] False show ?thesis by simp
    qed
    have samez: "?z ! i = x ! i" if "i < P \<or> Suc m \<le> i" for i
      using that Pm same [of i] by (auto simp: nth_list_update)
    have lenz: "length ?z = length x"
      using len by simp
    show ?thesis
      using loop lenz samez recz unfolding f_def by blast
  qed
qed

lemma ARMA_run:
  assumes valid: "int (length ARcoeffs) = ARorder" "int (length MAcoeffs) = MAorder"
      "int (length start_values) = ARorder"
    and fits: "length start_values \<le> T"
  shows "\<exists>x. ARMA T start_values cst ARorder ARcoeffs MAorder MAcoeffs sigma draws
        = Inr \<lparr>printed = [], series = x\<rparr> \<and>
      length x = T \<and> take (length start_values) x = start_values \<and>
      (\<forall>t. length start_values \<le> t \<and> t < T \<longrightarrow>
         x ! t = cst + draws t
           + (if ARcoeffs = [] then 0 else ARcoeffs ! 0 * (cst + draws t))
           + (\<Sum>p = 1..<length ARcoeffs. ARcoeffs ! p * x ! (t - p))
           - (\<Sum>q | q < length MAcoeffs \<and> q + 1 \<le> t. MAcoeffs ! q * x ! (t - q - 1)))"
proof -
  let ?P = "length start_values"
  let ?Q = "length MAcoeffs"
  let ?a = "np_random_normal T draws"
  let ?x0 = "start_values @ replicate (T - ?P) 0"
  have PQ: "nat ARorder = ?P" "nat MAorder = ?Q" "length ARcoeffs = ?P"
    using valid by auto
  have seeded: "for_loop [0..<?P] (seed_value start_values) (replicate T 0) = Inr ?x0"
    using fits by (simp add: seed_loop)
  have lens: "?P \<le> length ARcoeffs" "?Q \<le> length MAcoeffs" "length ?a = length ?x0"
      "?P \<le> T" "T \<le> length ?x0"
    using PQ fits by (simp_all add: np_random_normal_def)
  from ARMA_loop [OF lens, of cst] obtain y where
    run: "for_loop [?P..<T] (ARMA_step cst ARcoeffs MAcoeffs ?a ?P ?Q) ?x0 = Inr y" and
    len: "length y = length ?x0" and
    same: "\<And>i. i < ?P \<or> T \<le> i \<Longrightarrow> y ! i = ?x0 ! i" and
    rec: "\<And>t. ?P \<le> t \<Longrightarrow> t < T \<Longrightarrow>
            y ! t = cst + ?a ! t + (if 0 < ?P then ARcoeffs ! 0 * (cst + ?a ! t) else 0)
                     + (\<Sum>p = 1..<?P. ARcoeffs ! p * y ! (t - p))
                     - (\<Sum>q<?Q. if q + 1 \<le> t then MAcoeffs ! q * y ! (t - q - 1) else 0)"
    by blast
  have "ARMA T start_values cst ARorder ARcoeffs MAorder MAcoeffs sigma draws
      = Inr \<lparr>printed = [], series = y\<rparr>"
    using valid by (simp add: ARMA_def Let_def PQ seeded run)
  moreover have "length y = T"
    using len fits by simp
  moreover have "take ?P y = start_values"
    using same len fits by (intro nth_equalityI) (simp_all add: nth_append)
  moreover have "y ! t = cst + draws t
           + (if ARcoeffs = [] then 0 else ARcoeffs ! 0 * (cst + draws t))
           + (\<Sum>p = 1..<length ARcoeffs. ARcoeffs ! p * y ! (t - p))
           - (\<Sum>q | q < ?Q \<and> q + 1 \<le> t. MAcoeffs ! q * y ! (t - q - 1))"
    if t: "?P \<le> t" "t < T" for t
  proof -
    have a_t: "?a ! t = draws t"
      using t by (simp add: np_random_normal_def)
    have first: "(if 0 < ?P then ARcoeffs ! 0 * (cst + draws t) else 0)
        = (if ARcoeffs = [] then 0 else ARcoeffs ! 0 * (cst + draws t))"
      using PQ by auto
    show ?thesis
      using rec [OF t] by (simp only: a_t first lagged_sum PQ(3))
  qed
  ultimately show ?thesis by blast
qed

lemma ARMA_short:
  assumes "int (length ARcoeffs) = ARorder" "int (length MAcoeffs) = MAorder"
      "int (length start_values) = ARorder"
    and "T < length start_values"
  shows "ARMA T start_values cst ARorder ARcoeffs MAorder MAcoeffs sigma draws = Inl IndexError"
proof -
  have "nat ARorder = length start_values"
    using assms by auto
  with assms show ?thesis
    by (simp add: ARMA_def Let_def seed_loop_short)
qed

text \<open>
  Claim C1, as the source has it. If the three length tests hold and \<^verbatim>\<open>ARMA\<close> returns a
  series \<open>x\<close>, then \<open>x\<close> has \<open>T\<close> values, its first \<open>P\<close> values are \<open>start_values\<close>, and
  for every \<open>t\<close> with \<open>P \<le> t < T\<close>
  \<open>x[t] = cst + noise[t] + ARcoeffs[0] * (cst + noise[t]) + \<Sum>p=1..P-1. ARcoeffs[p] * x[t-p]
     - \<Sum>q. MAcoeffs[q] * x[t-q-1]\<close>,
  the last sum over the \<open>q < Q\<close> with \<open>t-q-1 \<ge> 0\<close>: the term \<open>p = 0\<close> reads \<open>x[t]\<close> while it
  still holds \<open>cst + noise[t]\<close>, not the finished value. (Without AR coefficients that term
  is absent.)
\<close>

theorem ARMA_recursion:
  assumes "int (length ARcoeffs) = ARorder" "int (length MAcoeffs) = MAorder"
      "int (length start_values) = ARorder"
    and "ARMA T start_values cst ARorder ARcoeffs MAorder MAcoeffs sigma draws = Inr rs"
  shows "length (series rs) = T \<and>
     take (length start_values) (series rs) = start_values \<and>
     (\<forall>t. length start_values \<le> t \<and> t < T \<longrightarrow>
        series rs ! t = cst + draws t
          + (if ARcoeffs = [] then 0 else ARcoeffs ! 0 * (cst + draws t))
          + (\<Sum>p = 1..<length ARcoeffs. ARcoeffs ! p * series rs ! (t - p))
          - (\<Sum>q | q < length MAcoeffs \<and> q + 1 \<le> t. MAcoeffs ! q * series rs ! (t - q - 1)))"
proof (cases "length start_values \<le> T")
  case True
  from ARMA_run [OF assms(1-3) True, of cst sigma draws] assms(4)
  show ?thesis by auto
next
  case False
  with ARMA_short [OF assms(1-3), of T cst sigma draws] assms(4)
  show ?thesis by simp
qed

theorem ARMA_recursion_witness:
  "ARMA 3 [1] 1 1 [2] 1 [3] 1 (\<lambda>t. real t) = Inr \<lparr>printed = [], series = [1, 3, 0]\<rparr> \<and>
   take 1 [1, 3, 0 :: real] = [1] \<and>
   [1, 3, 0 :: real] ! 1 = 1 + 1 + 2 * (1 + 1) - 3 * 1 \<and>
   [1, 3, 0 :: real] ! 2 = 1 + 2 + 2 * (1 + 2) - 3 * 3"
proof -
  have run: "ARMA 3 [1] 1 1 [2] 1 [3] 1 (\<lambda>t. real t) = Inr \<lparr>printed = [], series = [1, 3, 0]\<rparr>"
    by (simp add: ARMA_def Let_def np_random_normal_def eval_nat_numeral upt_rec
        seed_value_def ARMA_step_def ARMA_AR_term_def ARMA_MA_term_def
        getitem_def setitem_def py_index_def)
  from ARMA_recursion [OF _ _ _ run] run show ?thesis
    by simp
qed

text \<open>
  The recursion read between the finished values fails already for \<open>P = 1\<close>, \<open>Q = 0\<close>:
  with \<open>cst = 1\<close>, \<open>ARcoeffs = [1]\<close> and no noise the source computes \<open>x[1] = 2\<close>, and
  \<open>2 \<noteq> 1 + 0 + 1 * 2\<close>.
\<close>

theorem ARMA_literal_recursion_counterexample:
  "ARMA 2 [1] 1 1 [1] 0 [] 1 (\<lambda>t. 0) = Inr \<lparr>printed = [], series = [1, 2]\<rparr> \<and>
   \<not> ARMA_literal_recursion 1 [1] [] (\<lambda>t. 0) [1, 2] 1"
proof
  show "ARMA 2 [1] 1 1 [1] 0 [] 1 (\<lambda>t. 0) = Inr \<lparr>printed = [], series = [1, 2]\<rparr>"
    by (simp add: ARMA_def Let_def np_random_normal_def eval_nat_numeral upt_rec
        seed_value_def ARMA_step_def ARMA_AR_term_def ARMA_MA_term_def
        getitem_def setitem_def py_index_def)
  show "\<not> ARMA_literal_recursion 1 [1] [] (\<lambda>t. 0) [1, 2] 1"
    by (simp add: ARMA_literal_recursion_def)
qed

subsection \<open>The simulated market\<close>

lemma length_cumprod_from: "length (cumprod_from acc rs) = length rs"
  by (induction rs arbitrary: acc) simp_all

lemma length_cumprod: "length (cumprod m) = length m"
  by (cases m) (simp_all add: length_cumprod_from)

lemma width_cumprod_from:
  "length acc = n \<Longrightarrow> \<forall>r \<in> set rs. length r = n \<Longrightarrow> \<forall>r \<in> set (cumprod_from acc rs). length r = n"
proof (induction rs arbitrary: acc)
  case Nil
  show ?case by simp
next
  case (Cons r rs)
  have w: "length (map2 (*) acc r) = n"
    using Cons.prems by simp
  have "\<forall>r' \<in> set (cumprod_from (map2 (*) acc r) rs). length r' = n"
    using Cons.prems by (intro Cons.IH [OF w]) simp
  with w show ?case
    by (simp del: length_map length_zip)
qed

lemma width_cumprod:
  assumes "\<forall>r \<in> set m. length r = n"
  shows "\<forall>r \<in> set (cumprod m). length r = n"
proof (cases m)
  case Nil
  then show ?thesis by simp
next
  case (Cons r rs)
  with assms width_cumprod_from [of r n rs] show ?thesis
    by simp
qed

lemma create_market_returns:
  assumes "create_market r_ini drift sigma n_years steps_per_year n_scenarios draws = Inr df"
  shows "steps_per_year \<noteq> 0 \<and> 0 \<le> py_int (n_years * steps_per_year) \<and> 0 \<le> n_scenarios \<and>
     df = DataFrame
       (map (map ((*) r_ini))
          (cumprod ((map (\<lambda>i. map (draws i) [0..<nat n_scenarios])
                       [0..<nat (py_int (n_years * steps_per_year) + 1)])
                    [0 := replicate (nat n_scenarios) 1])))
       (nat n_scenarios)"
proof -
  let ?n = "py_int (n_years * steps_per_year) + 1"
  let ?finish = "\<lambda>rets_plus_1. Inr (DataFrame (map (map ((*) r_ini)) (cumprod rets_plus_1)) (nat n_scenarios))"
  have nz: "steps_per_year \<noteq> 0"
  proof
    assume "steps_per_year = 0"
    then have "create_market r_ini drift sigma n_years steps_per_year n_scenarios draws
        = Inl ZeroDivisionError"
      by (simp add: create_market_def py_div_def)
    with assms show False by simp
  qed
  have pw: "\<not> (1 + drift = 0 \<and> 1 / steps_per_year < 0)"
  proof
    assume "1 + drift = 0 \<and> 1 / steps_per_year < 0"
    with nz have "create_market r_ini drift sigma n_years steps_per_year n_scenarios draws
        = Inl ZeroDivisionError"
      by (simp add: create_market_def py_div_def Let_def)
    with assms show False by simp
  qed
  have "create_market r_ini drift sigma n_years steps_per_year n_scenarios draws
      = bindE (np_random_normal_2d ?n n_scenarios draws) (\<lambda>m. bindE (fill_row m 0 1) ?finish)"
    using nz pw by (cases "1 + drift = 0") (simp_all add: create_market_def py_div_def Let_def)
  with assms obtain m m' where
    m: "np_random_normal_2d ?n n_scenarios draws = Inr m" and
    fill: "fill_row m 0 1 = Inr m'" and
    df: "df = DataFrame (map (map ((*) r_ini)) (cumprod m')) (nat n_scenarios)"
    by (auto simp: bindE_eq_Inr)
  have dims: "0 \<le> ?n \<and> 0 \<le> n_scenarios"
  proof (rule ccontr)
    assume "\<not> (0 \<le> ?n \<and> 0 \<le> n_scenarios)"
    then have "np_random_normal_2d ?n n_scenarios draws = Inl ValueError"
      by (auto simp: np_random_normal_2d_def)
    with m show False by simp
  qed
  with m have m_def: "m = map (\<lambda>i. map (draws i) [0..<nat n_scenarios]) [0..<nat ?n]"
    by (auto simp: np_random_normal_2d_def)
  have rows: "0 < length m"
  proof (rule ccontr)
    assume "\<not> 0 < length m"
    then have "fill_row m 0 1 = Inl IndexError"
      by (simp add: fill_row_def getitem_zero)
    with fill show False by simp
  qed
  with fill have m': "m' = m[0 := map (\<lambda>_. 1) (m ! 0)]"
    by (simp add: fill_row_def getitem_zero setitem_zero)
  from rows have pos: "0 < nat ?n"
    by (simp add: m_def)
  then have "m ! 0 = map (draws 0) [0..<nat n_scenarios]"
    unfolding m_def by (subst nth_map) simp_all
  then have "map (\<lambda>_. 1) (m ! 0) = replicate (nat n_scenarios) (1::real)"
    by (simp add: map_replicate_const)
  with m' have m'': "m' = m[0 := replicate (nat n_scenarios) 1]"
    by simp
  have "0 \<le> py_int (n_years * steps_per_year)"
    using pos by simp
  with df m_def m'' nz dims show ?thesis
    by (simp only: simp_thms)
qed


lemma cumprod_first: "m \<noteq> [] \<Longrightarrow> cumprod m ! 0 = m ! 0"
  by (cases m) simp_all

lemma create_market_cells:
  assumes "create_market r_ini drift sigma n_years steps_per_year n_scenarios draws = Inr df"
  shows "\<exists>m. cells df = map (map ((*) r_ini)) (cumprod m) \<and>
     int (length m) = py_int (n_years * steps_per_year) + 1 \<and> m \<noteq> [] \<and>
     m ! 0 = replicate (nat n_scenarios) 1 \<and> (\<forall>r \<in> set m. length r = nat n_scenarios) \<and>
     0 \<le> n_scenarios \<and>
     columns df = map Position [0..<nat n_scenarios] \<and>
     index df = map Position [0..<length m]"
proof -
  let ?k = "nat n_scenarios"
  let ?M = "map (\<lambda>i. map (draws i) [0..<?k]) [0..<nat (py_int (n_years * steps_per_year) + 1)]"
  let ?m = "?M[0 := replicate ?k 1]"
  from create_market_returns [OF assms] have
    n: "0 \<le> py_int (n_years * steps_per_year)" and k: "0 \<le> n_scenarios" and
    df: "df = DataFrame (map (map ((*) r_ini)) (cumprod ?m)) ?k"
    by simp_all
  have len: "int (length ?m) = py_int (n_years * steps_per_year) + 1"
    using n by simp
  then have ne: "?m \<noteq> []"
    using n by auto
  have first: "?m ! 0 = replicate ?k 1"
    using ne by simp
  have width: "\<forall>r \<in> set ?m. length r = ?k"
  proof
    fix r assume "r \<in> set ?m"
    then have "r \<in> insert (replicate ?k 1) (set ?M)"
      using set_update_subset_insert by fastforce
    then show "length r = ?k"
      by auto
  qed
  have "cells df = map (map ((*) r_ini)) (cumprod ?m)"
    and "columns df = map Position [0..<?k]"
    and "index df = map Position [0..<length ?m]"
    unfolding df DataFrame_def by (simp_all add: length_cumprod)
  with len ne first width k show ?thesis
    by blast
qed

text \<open>
  Claim C4. Whenever \<^verbatim>\<open>create_market\<close> returns a frame, the frame has a row 0, that row
  has one cell per scenario, and each of its cells is \<open>r_ini\<close>: row 0 of the returns is set
  to 1 before the cumulative product.
\<close>

theorem market_starts_at_r_ini:
  assumes "create_market r_ini drift sigma n_years steps_per_year n_scenarios draws = Inr df"
  shows "cells df \<noteq> [] \<and> int (length (cells df ! 0)) = n_scenarios \<and>
     (\<forall>j < length (cells df ! 0). cells df ! 0 ! j = r_ini)"
proof -
  from create_market_cells [OF assms] obtain m where
    c: "cells df = map (map ((*) r_ini)) (cumprod m)" and
    ne: "m \<noteq> []" and first: "m ! 0 = replicate (nat n_scenarios) 1" and k: "0 \<le> n_scenarios"
    by blast
  from ne have "0 < length (cumprod m)"
    by (simp add: length_cumprod)
  then have "cells df ! 0 = map ((*) r_ini) (cumprod m ! 0)"
    unfolding c by (subst nth_map) simp_all
  also have "\<dots> = replicate (nat n_scenarios) r_ini"
    using ne first by (simp add: cumprod_first)
  finally have row: "cells df ! 0 = replicate (nat n_scenarios) r_ini" .
  have "length (cells df) = length m"
    unfolding c by (simp add: length_cumprod)
  with ne have "cells df \<noteq> []"
    by auto
  with row k show ?thesis
    by simp
qed

text \<open>
  Claim C8, as the source has it. Whenever \<^verbatim>\<open>create_market\<close> returns a frame, the frame
  has \<^verbatim>\<open>int(n_years * steps_per_year) + 1\<close> rows, \<^verbatim>\<open>int\<close> truncating towards zero, and
  \<open>n_scenarios\<close> cells in every row, with as many row labels and column labels. The number of
  rows is \<open>\<lfloor>n_years * steps_per_year\<rfloor> + 1\<close> when \<open>n_years * steps_per_year\<close> is not negative.
\<close>

theorem market_shape:
  assumes "create_market r_ini drift sigma n_years steps_per_year n_scenarios draws = Inr df"
  shows "int (length (cells df)) = py_int (n_years * steps_per_year) + 1 \<and>
     (\<forall>row \<in> set (cells df). int (length row) = n_scenarios) \<and>
     length (index df) = length (cells df) \<and>
     int (length (columns df)) = n_scenarios \<and>
     (0 \<le> n_years * steps_per_year \<longrightarrow>
        int (length (cells df)) = \<lfloor>n_years * steps_per_year\<rfloor> + 1)"
proof -
  from create_market_cells [OF assms] obtain m where
    c: "cells df = map (map ((*) r_ini)) (cumprod m)" and
    len: "int (length m) = py_int (n_years * steps_per_year) + 1" and
    width: "\<forall>r \<in> set m. length r = nat n_scenarios" and k: "0 \<le> n_scenarios" and
    cols: "columns df = map Position [0..<nat n_scenarios]" and
    idx: "index df = map Position [0..<length m]"
    by blast
  have rows: "length (cells df) = length m"
    unfolding c by (simp add: length_cumprod)
  have "\<forall>r \<in> set (cumprod m). length r = nat n_scenarios"
    using width by (rule width_cumprod)
  then have cells: "\<forall>row \<in> set (cells df). int (length row) = n_scenarios"
    unfolding c using k by auto
  have "0 \<le> n_years * steps_per_year \<longrightarrow> py_int (n_years * steps_per_year) = \<lfloor>n_years * steps_per_year\<rfloor>"
    by (simp add: py_int_def)
  with rows len cells cols idx k show ?thesis
    by simp
qed


lemmas create_market_eval =
  create_market_def py_div_def py_int_def Let_def np_random_normal_2d_def fill_row_def
  getitem_def setitem_def py_index_def DataFrame_def eval_nat_numeral upt_rec

theorem market_starts_at_r_ini_witness:
  "create_market 100 (7 / 100) (15 / 100) (1 / 6) 12 2 (\<lambda>i j. 2)
     = Inr \<lparr>cells = [[100, 100], [200, 200], [400, 400]],
            columns = [Position 0, Position 1],
            index = [Position 0, Position 1, Position 2]\<rparr> \<and>
   [[100, 100], [200, 200], [400, 400 :: real]] ! 0 = [100, 100]"
proof -
  have run: "create_market 100 (7 / 100) (15 / 100) (1 / 6) 12 2 (\<lambda>i j. 2)
     = Inr \<lparr>cells = [[100, 100], [200, 200], [400, 400]],
            columns = [Position 0, Position 1],
            index = [Position 0, Position 1, Position 2]\<rparr>"
    by (simp add: create_market_eval)
  from market_starts_at_r_ini [OF run] run show ?thesis
    by simp
qed

theorem market_shape_witness:
  "create_market 50 0 1 (1 / 2) 4 1 (\<lambda>i j. 1 + real i)
     = Inr \<lparr>cells = [[50], [100], [300]], columns = [Position 0],
            index = [Position 0, Position 1, Position 2]\<rparr> \<and>
   0 \<le> (1 / 2 :: real) * 4 \<and>
   int (length [[50], [100], [300 :: real]]) = \<lfloor>(1 / 2 :: real) * 4\<rfloor> + 1"
proof -
  have run: "create_market 50 0 1 (1 / 2) 4 1 (\<lambda>i j. 1 + real i)
     = Inr \<lparr>cells = [[50], [100], [300]], columns = [Position 0],
            index = [Position 0, Position 1, Position 2]\<rparr>"
    by (simp add: create_market_eval)
  from market_shape [OF run] run show ?thesis
    by simp
qed

text \<open>
  With \<open>n_years = -1/2\<close> and one step per year \<^verbatim>\<open>int(-0.5) + 1 = 1\<close>: the frame has one
  row, where \<open>\<lfloor>-1/2\<rfloor> + 1 = 0\<close>.
\<close>

lemma py_int_minus_half: "py_int (- 1 / 2) = 0"
proof -
  have "\<lceil>- 1 / 2 :: real\<rceil> = 0"
    by (rule ceiling_unique) simp_all
  then show ?thesis
    by (simp add: py_int_def)
qed

theorem market_shape_floor_counterexample:
  "create_market 100 (7 / 100) (15 / 100) (- 1 / 2) 1 1 (\<lambda>i j. 1)
     = Inr \<lparr>cells = [[100]], columns = [Position 0], index = [Position 0]\<rparr> \<and>
   int (length [[100 :: real]]) \<noteq> \<lfloor>(- 1 / 2 :: real) * 1\<rfloor> + 1"
proof
  have "py_int (- 1 / 2 * 1) = 0"
    using py_int_minus_half by simp
  then show "create_market 100 (7 / 100) (15 / 100) (- 1 / 2) 1 1 (\<lambda>i j. 1)
     = Inr \<lparr>cells = [[100]], columns = [Position 0], index = [Position 0]\<rparr>"
    by (simp add: create_market_def py_div_def Let_def np_random_normal_2d_def fill_row_def
        getitem_def setitem_def py_index_def DataFrame_def)
  have "\<lfloor>- 1 / 2 :: real\<rfloor> = - 1"
    by (rule floor_unique) simp_all
  then show "int (length [[100 :: real]]) \<noteq> \<lfloor>(- 1 / 2 :: real) * 1\<rfloor> + 1"
    by simp
qed

subsection \<open>The numbers of shares\<close>

lemma series_min_negative:
  "(case series_min vs of Some m \<Rightarrow> m < 0 | None \<Rightarrow> False) = (\<exists>v \<in> set vs. v < 0)"
proof (cases vs)
  case Nil
  then show ?thesis by simp
next
  case (Cons v ws)
  have "fold min ws v = Min (set (v # ws))"
    by (simp only: Min.set_eq_fold)
  then show ?thesis
    using Cons by (simp add: Min_less_iff del: set_simps)
qed

text \<open>
  Claim C6, as the source has it. If a truncated draw is negative, \<^verbatim>\<open>create_market_shares\<close>
  ends with the exception of its \<^verbatim>\<open>raise\<close> statement and returns nothing. If it returns, the
  result has one entry for each column of the market, labelled as the columns are, each
  entry is the truncated draw of its column, and no entry is negative; an entry may be 0,
  because the test is \<^verbatim>\<open>market_shares.min() < 0\<close>.
\<close>

theorem market_shares_outcome:
  "((\<exists>i < length (columns market). py_int (draws i) < 0) \<longrightarrow>
      create_market_shares market draws
        = Inl (Exception ''A negative market share was generated, please launch again.'')) \<and>
   (create_market_shares market draws = Inr shares \<longrightarrow>
      map fst shares = columns market \<and>
      map snd shares = map (\<lambda>i. py_int (draws i)) [0..<length (columns market)] \<and>
      (\<forall>v \<in> set (map snd shares). 0 \<le> v))"
proof -
  let ?s = "map (\<lambda>i. py_int (draws i)) [0..<length (columns market)]"
  have neg: "(\<exists>v \<in> set ?s. v < 0) = (\<exists>i < length (columns market). py_int (draws i) < 0)"
    by auto
  have run: "create_market_shares market draws
      = (if \<exists>i < length (columns market). py_int (draws i) < 0
         then Inl (Exception ''A negative market share was generated, please launch again.'')
         else Inr (zip (columns market) ?s))"
    unfolding create_market_shares_def Let_def series_min_negative neg ..
  show ?thesis
  proof (intro conjI impI)
    assume "\<exists>i < length (columns market). py_int (draws i) < 0"
    then show "create_market_shares market draws
        = Inl (Exception ''A negative market share was generated, please launch again.'')"
      by (simp only: run if_True)
  next
    assume r: "create_market_shares market draws = Inr shares"
    then have none: "\<not> (\<exists>i < length (columns market). py_int (draws i) < 0)"
      and shares: "shares = zip (columns market) ?s"
      unfolding run by (auto split: if_splits)
    show "map fst shares = columns market"
      unfolding shares by simp
    show vals: "map snd shares = ?s"
      unfolding shares by simp
    show "\<forall>v \<in> set (map snd shares). 0 \<le> v"
    proof
      fix v assume "v \<in> set (map snd shares)"
      then have "v \<in> set ?s"
        by (simp only: vals)
      then obtain i where "i < length (columns market)" "v = py_int (draws i)"
        by auto
      with none show "0 \<le> v"
        by (meson not_less)
    qed
  qed
qed


theorem market_shares_outcome_witness:
  "create_market_shares
     \<lparr>cells = [[100, 100]], columns = [Name ''Asset 0'', Name ''Asset 1''], index = [Position 0]\<rparr>
     (\<lambda>i. if i = 0 then 5 / 2 else - 3 / 2)
     = Inl (Exception ''A negative market share was generated, please launch again.'') \<and>
   create_market_shares
     \<lparr>cells = [[100, 100]], columns = [Name ''Asset 0'', Name ''Asset 1''], index = [Position 0]\<rparr>
     (\<lambda>i. 5 / 2 + real i)
     = Inr [(Name ''Asset 0'', 2), (Name ''Asset 1'', 3)]"
proof -
  let ?market = "\<lparr>cells = [[100, 100]], columns = [Name ''Asset 0'', Name ''Asset 1''],
                  index = [Position 0]\<rparr>"
  have "\<lceil>- 3 / 2 :: real\<rceil> = - 1"
    by (rule ceiling_unique) simp_all
  then have "py_int (- 3 / 2) < 0"
    by (simp add: py_int_def)
  then have neg: "\<exists>i < length (columns ?market). py_int ((\<lambda>i. if i = 0 then 5 / 2 else - 3 / 2) i) < 0"
    by (intro exI [of _ 1]) simp
  have "\<lfloor>5 / 2 :: real\<rfloor> = 2" "\<lfloor>7 / 2 :: real\<rfloor> = 3"
    by (rule floor_unique; simp)+
  then have run: "create_market_shares ?market (\<lambda>i. 5 / 2 + real i)
      = Inr [(Name ''Asset 0'', 2), (Name ''Asset 1'', 3)]"
    by (simp add: create_market_shares_def Let_def py_int_def eval_nat_numeral upt_rec)
  from market_shares_outcome [of ?market "\<lambda>i. if i = 0 then 5 / 2 else - 3 / 2"] neg
    market_shares_outcome [of ?market "\<lambda>i. 5 / 2 + real i"
      "[(Name ''Asset 0'', 2), (Name ''Asset 1'', 3)]"] run
  show ?thesis
    by blast
qed

text \<open>
  A draw of \<open>1/2\<close> (it is the only value of a normal law of mean \<open>1/2\<close> and deviation 0)
  truncates to 0, which is not below 0: the call returns a share count that is not positive.
\<close>

theorem market_shares_positive_counterexample:
  "create_market_shares \<lparr>cells = [[100]], columns = [Name ''Asset 0''], index = [Position 0]\<rparr>
     (\<lambda>i. 1 / 2)
     = Inr [(Name ''Asset 0'', 0)] \<and>
   \<not> list_all (\<lambda>v. 0 < v) (map snd [(Name ''Asset 0'', 0 :: int)])"
proof -
  have "\<lfloor>1 / 2 :: real\<rfloor> = 0"
    by (rule floor_unique) simp_all
  then show ?thesis
    by (simp add: create_market_shares_def Let_def py_int_def)
qed

subsection \<open>Naming the market\<close>

lemma set_market_names_other_date_type:
  assumes "date_type \<noteq> ''start''" "date_type \<noteq> ''end''"
  shows "snd (set_market_names strptime data date date_type interval_type) = Some UnboundLocalError"
  using assms by (simp add: set_market_names_def date_series_of_def Let_def)

text \<open>
  Claim C7. With \<^verbatim>\<open>date_type="middle"\<close> the call does not end with the
  \<^verbatim>\<open>ValueError("date_type choice is not recognized.")\<close> that the last \<^verbatim>\<open>else\<close> builds: the
  exception is not raised, \<^verbatim>\<open>date_series\<close> stays unbound, and the call ends with an
  \<^verbatim>\<open>UnboundLocalError\<close> at \<^verbatim>\<open>date_series.to_period\<close>, the columns of the frame already renamed.
\<close>

theorem set_market_names_unrecognized_date_type:
  "set_market_names (\<lambda>s. Some 737425)
     \<lparr>cells = [[100]], columns = [Position 0], index = [Position 0]\<rparr>
     ''2020-01-01'' ''middle'' ''D''
   = (\<lparr>cells = [[100]], columns = [Name ''Asset 0''], index = [Position 0]\<rparr>,
      Some UnboundLocalError)"
  by (simp add: set_market_names_def date_series_of_def Let_def str.simps)

end
